theory Spec2Isabelle
  imports Complex_Main "HOL-Library.Word"
begin

unbundle bit_operations_syntax

section \<open>The AWG AD9106 module (tools/awg\_ad9106.py)\<close>

text \<open>
  The class \<open>AWG_AD9106\<close> is embedded as a record of its attributes with explicit state
  passing. Python's \<open>bytes\<close> are lists of \<open>char\<close> (a \<open>char\<close> is one byte), Python's
  unbounded integers are \<open>int\<close>. Python's floats are idealised as \<open>real\<close> in the
  extraction, combination and scaling stages: the rounding of IEEE arithmetic, NaN and
  the infinities are outside the model there. The quantizer is modelled on IEEE doubles:
  each of its float operations is rounded to a double and may overflow to infinity. Every
  \<open>raise\<close> is a value of the type \<open>error\<close>; a method that mutates the object before it
  raises returns the mutated object next to the error. Printing to the screen and
  \<open>time.sleep\<close> have no counterpart; a print that can itself raise (the \<open>decode\<close> of
  bytes that are not UTF-8) keeps that branch.
\<close>

subsection \<open>Constants\<close>

type_synonym bytes = "char list"

definition EOL :: bytes where
  "EOL = [CHR 0x0D, CHR 0x0A]"

definition OVER_R :: bytes where
  "OVER_R = ''OVER''"

definition OVER_W :: bytes where
  "OVER_W = OVER_R @ EOL"

definition MAX_SRAM_SAMPLES :: int where
  "MAX_SRAM_SAMPLES = 4096"

definition MAX_SRAM_VALUE :: int where
  "MAX_SRAM_VALUE = 511"

definition AUTO_DETECT :: int where
  "AUTO_DETECT = -1"

definition CMD_XXX :: bytes where
  "CMD_XXX = ''XXX'' @ EOL"

definition RSP_XXX_SIZE :: nat where
  "RSP_XXX_SIZE = 1024"

subsection \<open>Errors, the transport and the session\<close>

datatype error =
    TimeoutError bytes  \<comment> \<open>carries the bytes that were read instead of the token\<close>
  | IndexError
  | TypeError
  | ValueError
  | ZeroDivisionError
  | OverflowError
  | UnicodeDecodeError

text \<open>
  The serial port is an external collaborator. It is modelled by what the module can
  observe of it: \<open>tx\<close> collects the bytes written, and \<open>script\<close> lists what each
  successive \<open>read\<close> call delivers before its timeout (an exhausted script is a read
  that times out with no bytes). A read never returns more than the requested count.
\<close>

record serial =
  tx :: bytes
  script :: "bytes list"

record session =
  ser :: "serial option"
  printWriteLog :: bool
  generateWriteLog :: bool
  writeLog :: bytes
  needsFinalOver :: bool
  columnRanges :: "real list option list"
  columnSelected :: "int option"
  columnWeights :: "real list"
  startingRowToRead :: int
  maxRowsToRead :: int
  maxRowsToWrite :: int
  hasCsvHeader :: int
  doesPrint :: bool
  doScaleAuto :: bool
  scaleMultiplier :: real

text \<open>The constructor; \<open>port\<close> is the opened port, \<open>None\<close> when \<open>portname\<close> is \<open>None\<close>.\<close>

definition init :: "serial option \<Rightarrow> bool \<Rightarrow> bool \<Rightarrow> session" where
  "init port genLog prtLog =
     \<lparr> ser = port, printWriteLog = prtLog, generateWriteLog = genLog, writeLog = [],
       needsFinalOver = False, columnRanges = [], columnSelected = None,
       columnWeights = [], startingRowToRead = 0,
       maxRowsToRead = MAX_SRAM_SAMPLES, maxRowsToWrite = MAX_SRAM_SAMPLES,
       hasCsvHeader = AUTO_DETECT, doesPrint = True, doScaleAuto = False,
       scaleMultiplier = 1 \<rparr>"

subsection \<open>Writing, reading and the OVER round trip\<close>

text \<open>
  \<open>_writeHandler\<close>. The parameter \<open>utf8\<close> says which byte strings \<open>bytes.decode\<close>
  accepts: with \<open>printWriteLog\<close> set, the line is decoded for printing before anything
  else happens, and a line that does not decode raises there.
\<close>

definition writeHandler :: "(bytes \<Rightarrow> bool) \<Rightarrow> session \<Rightarrow> bytes \<Rightarrow> error option \<times> session" where
  "writeHandler utf8 s line =
     (if printWriteLog s \<and> \<not> utf8 line then (Some UnicodeDecodeError, s)
      else
        let s1 = (if generateWriteLog s then s\<lparr>writeLog := writeLog s @ line\<rparr> else s);
            s2 = (case ser s1 of
                    None \<Rightarrow> s1
                  | Some t \<Rightarrow> s1\<lparr>ser := Some (t\<lparr>tx := tx t @ line\<rparr>)\<rparr>)
        in (None, s2))"

definition read :: "session \<Rightarrow> nat \<Rightarrow> bytes \<times> session" where
  "read s max_bytes =
     (case ser s of
        None \<Rightarrow> ([], s)
      | Some t \<Rightarrow>
          (case script t of
             [] \<Rightarrow> ([], s)
           | r # rs \<Rightarrow> (take max_bytes r, s\<lparr>ser := Some (t\<lparr>script := rs\<rparr>)\<rparr>)))"

definition sendOverWaitForOver :: "(bytes \<Rightarrow> bool) \<Rightarrow> session \<Rightarrow> error option \<times> session" where
  "sendOverWaitForOver utf8 s =
     (let s0 = s\<lparr>needsFinalOver := False\<rparr> in
      case writeHandler utf8 s0 OVER_W of
        (Some e, s1) \<Rightarrow> (Some e, s1)
      | (None, s1) \<Rightarrow>
          (let (dataRead, s2) = read s1 (length OVER_R) in
           if dataRead \<noteq> OVER_R \<and> ser s2 \<noteq> None then (Some (TimeoutError dataRead), s2)
           else (None, s2)))"

text \<open>
  \<open>_convertCommandsToListOfBytes\<close> on a list of byte strings. A \<open>str\<close> item is its UTF-8
  encoding, an argument that is not a list is the list of that one item, and an item of
  any other type (the \<open>TypeError\<close> of the source) is excluded by the type.
\<close>

fun split_nl :: "bytes \<Rightarrow> bytes list" where
  "split_nl [] = [[]]"
| "split_nl (c # cs) =
     (if c = CHR 0x0A then [] # split_nl cs
      else (case split_nl cs of [] \<Rightarrow> [[c]] | p # ps \<Rightarrow> (c # p) # ps))"

definition convertCommandsToListOfBytes :: "bytes list \<Rightarrow> bytes list" where
  "convertCommandsToListOfBytes lines =
     concat (map (\<lambda>line.
        map (\<lambda>tempItem. tempItem @ EOL)
          (filter (\<lambda>tempItem. length tempItem > 0)
             (split_nl (map (\<lambda>c. if c = CHR 0x0D then CHR 0x0A else c) line)))) lines)"

definition startswith :: "bytes \<Rightarrow> bytes \<Rightarrow> bool" where
  "startswith line p = (take (length p) line = p)"

fun write_loop :: "(bytes \<Rightarrow> bool) \<Rightarrow> session \<Rightarrow> bytes list \<Rightarrow> error option \<times> session" where
  "write_loop utf8 s [] = (None, s)"
| "write_loop utf8 s (line # rest) =
     (if line = OVER_W then
        (case sendOverWaitForOver utf8 s of
           (Some e, s') \<Rightarrow> (Some e, s')
         | (None, s') \<Rightarrow> write_loop utf8 s' rest)
      else
        (let s1 = (if startswith line ''Z'' then s\<lparr>needsFinalOver := True\<rparr> else s) in
         case writeHandler utf8 s1 line of
           (Some e, s2) \<Rightarrow> (Some e, s2)
         | (None, s2) \<Rightarrow>
             if line = CMD_XXX then
               (let (rsp, s3) = read s2 RSP_XXX_SIZE in
                if utf8 rsp then write_loop utf8 s3 rest else (Some UnicodeDecodeError, s3))
             else write_loop utf8 s2 rest))"

text \<open>The method \<open>write\<close> (the name is reserved in Isabelle, hence the suffix).\<close>

definition write_lines :: "(bytes \<Rightarrow> bool) \<Rightarrow> session \<Rightarrow> bytes list \<Rightarrow> error option \<times> session" where
  "write_lines utf8 s lines = write_loop utf8 s (convertCommandsToListOfBytes lines)"

subsection \<open>Load parameters\<close>

text \<open>\<open>setLoadParameters\<close>: a parameter left at \<open>None\<close> keeps the stored value.\<close>

definition setLoadParameters ::
  "session \<Rightarrow> int option \<Rightarrow> int option \<Rightarrow> int option \<Rightarrow> bool option \<Rightarrow> real option \<Rightarrow>
   real list option list option \<Rightarrow> int option \<Rightarrow> real list option \<Rightarrow> int option \<Rightarrow>
   bool option \<Rightarrow> session" where
  "setLoadParameters s startingRowToRead' maxRowsToWrite' maxRowsToRead' doScaleAuto'
       scaleMultiplier' columnRanges' columnSelected' columnWeights' hasCsvHeader' doesPrint' =
     (let s1 = (case columnRanges' of None \<Rightarrow> s | Some v \<Rightarrow> s\<lparr>columnRanges := v\<rparr>);
          s2 = (case columnSelected' of None \<Rightarrow> s1 | Some v \<Rightarrow> s1\<lparr>columnSelected := Some v\<rparr>);
          s3 = (case columnWeights' of None \<Rightarrow> s2 | Some v \<Rightarrow> s2\<lparr>columnWeights := v\<rparr>);
          s4 = (case doScaleAuto' of None \<Rightarrow> s3 | Some v \<Rightarrow> s3\<lparr>doScaleAuto := v\<rparr>);
          s5 = (case scaleMultiplier' of None \<Rightarrow> s4 | Some v \<Rightarrow> s4\<lparr>scaleMultiplier := v\<rparr>);
          s6 = (case hasCsvHeader' of None \<Rightarrow> s5 | Some v \<Rightarrow> s5\<lparr>hasCsvHeader := v\<rparr>);
          s7 = (case doesPrint' of None \<Rightarrow> s6 | Some v \<Rightarrow> s6\<lparr>doesPrint := v\<rparr>);
          s8 = (case startingRowToRead' of None \<Rightarrow> s7 | Some v \<Rightarrow> s7\<lparr>startingRowToRead := v\<rparr>);
          s9 = (case maxRowsToRead' of
                  None \<Rightarrow> s8
                | Some v \<Rightarrow>
                    if v = AUTO_DETECT then s8\<lparr>maxRowsToRead := MAX_SRAM_SAMPLES\<rparr>
                    else s8\<lparr>maxRowsToRead := min v MAX_SRAM_SAMPLES\<rparr>)
      in (case maxRowsToWrite' of
            None \<Rightarrow> s9
          | Some v \<Rightarrow>
              if v = AUTO_DETECT then s9\<lparr>maxRowsToWrite := MAX_SRAM_SAMPLES\<rparr>
              else s9\<lparr>maxRowsToWrite := min v MAX_SRAM_SAMPLES\<rparr>))"

subsection \<open>Combining channels\<close>

text \<open>\<open>_copyListAndForceLength\<close>: pad with the fill value, then truncate.\<close>

definition copyListAndForceLength :: "'a list \<Rightarrow> nat \<Rightarrow> 'a \<Rightarrow> 'a list" where
  "copyListAndForceLength listInput n fillValue =
     take n (listInput @ replicate (n - length listInput) fillValue)"

text \<open>
  \<open>_normalizeValue\<close>. A range is \<open>None\<close> or a list of floats; fewer than two entries
  select the default range. The swap the source does in place on the caller's list does
  not change the value returned and is kept local here.
\<close>

definition normalizeValue :: "real \<Rightarrow> real list option \<Rightarrow> real" where
  "normalizeValue v channelRange =
     (let r = (case channelRange of
                 None \<Rightarrow> [-1, 1]
               | Some l \<Rightarrow> if length l < 2 then [-1, 1] else l);
          lo = (if r ! 0 > r ! 1 then r ! 1 else r ! 0);
          hi = (if r ! 0 > r ! 1 then r ! 0 else r ! 1);
          channelWidth = hi - lo
      in if channelWidth = 0 then 0
         else max (-1) (min 1 ((v - lo) * 2 / channelWidth + (-1))))"

text \<open>
  The weights of \<open>_weightedAverageChannels\<close>. With a selected column the source compares
  only against the upper end and then assigns \<open>columnWeights[columnSelected] = 1.0\<close>,
  where Python counts a negative index from the end of the list.
\<close>

definition buildColumnWeights :: "session \<Rightarrow> nat \<Rightarrow> error + real list" where
  "buildColumnWeights s n =
     (case columnSelected s of
        Some sel \<Rightarrow>
          if sel \<ge> int n then Inl IndexError
          else
            (let k = (if sel < 0 then sel + int n else sel) in
             if k < 0 then Inl IndexError
             else Inr (copyListAndForceLength ((replicate n 0)[nat k := 1]) n 0))
      | None \<Rightarrow>
          (let cw = (if length (columnWeights s) = 0
                     then copyListAndForceLength (columnWeights s) n 1
                     else columnWeights s)
           in Inr (copyListAndForceLength cw n 0)))"

text \<open>
  The inner loop over the channels \<open>j\<close> at one output index \<open>i\<close>. The guard of the
  source, \<open>j >= len(channels)\<close>, is kept as written; \<open>channels[j][i]\<close> raises when
  channel \<open>j\<close> has no entry \<open>i\<close>.
\<close>

definition weightedSum ::
  "real list list \<Rightarrow> real list \<Rightarrow> real list option list \<Rightarrow> nat \<Rightarrow> error + real" where
  "weightedSum channels cw ranges i =
     foldl (\<lambda>acc j.
        case acc of
          Inl e \<Rightarrow> Inl e
        | Inr weightedAverage \<Rightarrow>
            if j \<ge> length channels
            then Inr (weightedAverage + cw ! j * normalizeValue 0 (ranges ! j))
            else if i < length (channels ! j)
            then Inr (weightedAverage + cw ! j * normalizeValue (channels ! j ! i) (ranges ! j))
            else Inl IndexError)
       (Inr 0) [0..<length channels]"

definition weightedAverageChannels ::
  "session \<Rightarrow> real list list \<Rightarrow> real list option list \<Rightarrow> error + real list" where
  "weightedAverageChannels s channels channelRanges =
     (let maxChannelLength = foldl (\<lambda>m channel. max m (length channel)) 0 channels in
      case buildColumnWeights s (length channels) of
        Inl e \<Rightarrow> Inl e
      | Inr cw \<Rightarrow>
          (let weightTotal = foldl (\<lambda>t channelWeight. t + \<bar>channelWeight\<bar>) 0 cw;
               ranges = copyListAndForceLength channelRanges (length channels) None
           in foldl (\<lambda>acc i.
                case acc of
                  Inl e \<Rightarrow> Inl e
                | Inr finalOutput \<Rightarrow>
                    (case weightedSum channels cw ranges i of
                       Inl e \<Rightarrow> Inl e
                     | Inr weightedAverage \<Rightarrow>
                         Inr (finalOutput @
                                [if weightTotal > 0 then weightedAverage / weightTotal else 0])))
              (Inr []) [0..<maxChannelLength]))"

subsection \<open>Padding, scaling and quantizing\<close>

definition padRowsToWrite :: "session \<Rightarrow> real list \<Rightarrow> real list" where
  "padRowsToWrite s valuesToPad =
     (if int (length valuesToPad) < maxRowsToWrite s
      then valuesToPad @
             replicate (nat (maxRowsToWrite s - int (length valuesToPad)))
               (if length valuesToPad = 0 then 0 else valuesToPad ! (length valuesToPad - 1))
      else valuesToPad)"

text \<open>\<open>_applyScaling\<close>; \<open>min\<close> and \<open>max\<close> of an empty list raise \<open>ValueError\<close>.\<close>

definition applyScaling :: "session \<Rightarrow> real list \<Rightarrow> error + real list" where
  "applyScaling s normValues =
     (case normValues of
        [] \<Rightarrow> Inl ValueError
      | x # xs \<Rightarrow>
          (let minValue = fold min xs x;
               maxValue = fold max xs x;
               scaled =
                 (if doScaleAuto s
                  then (let autoMultiplier =
                              (if minValue \<noteq> 0 \<and> maxValue \<noteq> 0
                               then 1 / max \<bar>minValue\<bar> \<bar>maxValue\<bar> else 1)
                        in map (\<lambda>item. autoMultiplier * item) normValues)
                  else normValues)
           in Inr (map (\<lambda>item. scaleMultiplier s * item) scaled)))"

text \<open>
  Python's \<open>round(x, 0)\<close> rounds to the nearest integer and a tie to the even one;
  \<open>int\<close> of a float truncates towards zero.
\<close>

definition py_round :: "real \<Rightarrow> int" where
  "py_round x =
     (let f = \<lfloor>x\<rfloor>; d = x - of_int f
      in if d < 1/2 then f else if d > 1/2 then f + 1 else if even f then f else f + 1)"

definition py_int :: "real \<Rightarrow> int" where
  "py_int x = (if x \<ge> 0 then \<lfloor>x\<rfloor> else \<lceil>x\<rceil>)"

text \<open>
  The value of a float operation: a finite double or an infinity. \<open>round_double\<close> rounds
  a real to the nearest double, a tie to the even significand: the significand has 53
  bits, the exponent of the binade is at least -1022 (below that the spacing stays that
  of the subnormal numbers), and a result of magnitude \<open>2 ^ 1024\<close> or more is an infinity.
\<close>

datatype py_float = Fl real | PosInf | NegInf

definition binade :: "real \<Rightarrow> int" where
  "binade x = max (- 1022) \<lfloor>log 2 \<bar>x\<bar>\<rfloor>"

definition round_double :: "real \<Rightarrow> py_float" where
  "round_double x =
     (if x = 0 then Fl 0
      else
        (let ulp = 2 powi (binade x - 52);
             y = of_int (py_round (x / ulp)) * ulp
         in if y \<ge> 2 powi 1024 then PosInf
            else if y \<le> - (2 powi 1024) then NegInf
            else Fl y))"

text \<open>
  One step of \<open>_normalizedValuesToRegisterValues\<close>, for a finite double \<open>normValue\<close>:
  \<open>int(round((normValue + 1.0) * MAX_SRAM_VALUE / 2.0, 0))\<close>, then the clamp. An infinity
  stays one through the multiplication, the division and \<open>round\<close>, and \<open>int\<close> of an
  infinity raises \<open>OverflowError\<close>.
\<close>

definition registerValue :: "real \<Rightarrow> error + int" where
  "registerValue normValue =
     (case round_double (normValue + 1) of
        Fl a \<Rightarrow>
          (case round_double (a * of_int MAX_SRAM_VALUE) of
             Fl b \<Rightarrow>
               (case round_double (b / 2) of
                  Fl c \<Rightarrow> Inr (max 0 (min MAX_SRAM_VALUE (py_round c)))
                | _ \<Rightarrow> Inl OverflowError)
           | _ \<Rightarrow> Inl OverflowError)
      | _ \<Rightarrow> Inl OverflowError)"

fun normalizedValuesToRegisterValues :: "real list \<Rightarrow> error + int list" where
  "normalizedValuesToRegisterValues [] = Inr []"
| "normalizedValuesToRegisterValues (normValue # rest) =
     (case registerValue normValue of
        Inl e \<Rightarrow> Inl e
      | Inr r \<Rightarrow>
          (case normalizedValuesToRegisterValues rest of
             Inl e \<Rightarrow> Inl e
           | Inr registerValues \<Rightarrow> Inr (r # registerValues)))"

subsection \<open>Reading the samples of a WAV file\<close>

text \<open>
  What \<open>wave.open\<close> gives: the compression type, the channel count, the sample width in
  bytes and the interleaved sample bytes. \<open>readframes n\<close> returns at most \<open>n\<close> frames.
\<close>

record wav =
  comptype_NONE :: bool
  nchannels :: nat
  sampwidth :: nat
  data :: "8 word list"

definition readframes :: "wav \<Rightarrow> int \<Rightarrow> 8 word list" where
  "readframes w n = take (nat n * (nchannels w * sampwidth w)) (data w)"

text \<open>
  The loop of \<open>loadNumbersFromWAV\<close> for one byte per sample. \<open>rowCount\<close> advances with
  every byte of \<open>frameBytes\<close> and \<open>j\<close> is the channel that receives the next kept byte.
\<close>

definition DIVISOR :: real where
  "DIVISOR = of_int MAX_SRAM_VALUE / 4"

fun wav8_loop ::
  "session \<Rightarrow> nat \<Rightarrow> 8 word list \<Rightarrow> int \<Rightarrow> nat \<Rightarrow> real list list \<Rightarrow> error + real list list" where
  "wav8_loop s numChannels [] rowCount j channels = Inr channels"
| "wav8_loop s numChannels (v # rest) rowCount j channels =
     (if rowCount < startingRowToRead s
      then wav8_loop s numChannels rest (rowCount + 1) j channels
      else if rowCount + 1 > startingRowToRead s + maxRowsToRead s then Inr channels
      else if j < length channels
      then wav8_loop s numChannels rest (rowCount + 1) ((j + 1) mod numChannels)
             (channels[j := channels ! j @ [of_int (uint v) / DIVISOR - 1]])
      else Inl IndexError)"

text \<open>
  \<open>_loadNumbersFromMultiByteWAV\<close>: \<open>i\<close> is the index of the byte, \<open>currentValue\<close> the
  sample being assembled, and \<open>rowCount\<close> advances on the last byte of the last channel
  of a frame.
\<close>

fun multiByte_loop ::
  "session \<Rightarrow> nat \<Rightarrow> nat \<Rightarrow> int \<Rightarrow> 8 word list \<Rightarrow> nat \<Rightarrow> int \<Rightarrow> int \<Rightarrow> real list list \<Rightarrow>
   error + real list list" where
  "multiByte_loop s sampleBytesWidth numChannels zeroOffset [] i currentValue rowCount channels =
     Inr channels"
| "multiByte_loop s sampleBytesWidth numChannels zeroOffset (b # rest) i currentValue rowCount channels =
     (if sampleBytesWidth = 0 \<or> numChannels = 0 then Inl ZeroDivisionError
      else
        (let channel = (i div sampleBytesWidth) mod numChannels;
             byteIndex = i mod sampleBytesWidth;
             isFirstByte = (byteIndex = 0);
             isLastByte = (byteIndex = sampleBytesWidth - 1);
             rowCount' = (if isLastByte \<and> channel = numChannels - 1 then rowCount + 1 else rowCount)
         in if rowCount < startingRowToRead s
            then multiByte_loop s sampleBytesWidth numChannels zeroOffset rest (i + 1)
                   currentValue rowCount' channels
            else if rowCount' > startingRowToRead s + maxRowsToRead s then Inr channels
            else if isFirstByte
            then multiByte_loop s sampleBytesWidth numChannels zeroOffset rest (i + 1)
                   (uint b AND 0xFF) rowCount' channels
            else if isLastByte
            then (let cv = currentValue OR push_bit (8 * byteIndex) (uint b AND 0x7F);
                      isNegative = (uint b AND 0x80 \<noteq> 0);
                      cv' = (if isNegative then cv - zeroOffset else cv)
                  in if channel < length channels
                     then multiByte_loop s sampleBytesWidth numChannels zeroOffset rest (i + 1)
                            cv' rowCount'
                            (channels[channel := channels ! channel @ [of_int cv' / of_int zeroOffset]])
                     else Inl IndexError)
            else multiByte_loop s sampleBytesWidth numChannels zeroOffset rest (i + 1)
                   (currentValue OR push_bit (8 * byteIndex) (uint b)) rowCount' channels))"

definition loadNumbersFromMultiByteWAV ::
  "session \<Rightarrow> real list list \<Rightarrow> 8 word list \<Rightarrow> nat \<Rightarrow> nat \<Rightarrow> error + real list list" where
  "loadNumbersFromMultiByteWAV s channels frameBytes sampleBytesWidth numChannels =
     (if sampleBytesWidth * 8 < 1 then Inl ValueError
      else multiByte_loop s sampleBytesWidth numChannels (push_bit (sampleBytesWidth * 8 - 1) 1)
             frameBytes 0 0 0 channels)"

text \<open>The channels of a WAV file, as \<open>loadNumbersFromWAV\<close> extracts them before combining.\<close>

definition wavChannels :: "session \<Rightarrow> wav \<Rightarrow> error + real list list" where
  "wavChannels s w =
     (if \<not> comptype_NONE w then Inl TypeError
      else
        (let numChannels = nchannels w;
             sampleBytesWidth = sampwidth w;
             frameBytes = readframes w (MAX_SRAM_SAMPLES + startingRowToRead s);
             channels = replicate numChannels []
         in if sampleBytesWidth = 1 then wav8_loop s numChannels frameBytes 0 0 channels
            else loadNumbersFromMultiByteWAV s channels frameBytes sampleBytesWidth numChannels))"

definition loadNumbersFromWAV :: "session \<Rightarrow> wav \<Rightarrow> error + int list" where
  "loadNumbersFromWAV s w =
     (case wavChannels s w of
        Inl e \<Rightarrow> Inl e
      | Inr channels \<Rightarrow>
          (let channelRanges = copyListAndForceLength [] (length channels) (Some [-1, 1]) in
           case weightedAverageChannels s channels channelRanges of
             Inl e \<Rightarrow> Inl e
           | Inr combined \<Rightarrow>
               (case applyScaling s (padRowsToWrite s combined) of
                  Inl e \<Rightarrow> Inl e
                | Inr scaled \<Rightarrow> normalizedValuesToRegisterValues scaled)))"

subsection \<open>Reading the rows of a CSV file\<close>

text \<open>
  The row loop of \<open>loadNumbersFromCSV\<close>, on the rows the \<open>csv\<close> reader yields after the
  header. The cells are already converted by \<open>_safeConvertToFloat\<close>; a row shorter than
  \<open>maxColumns\<close> gives 0.0 in the columns it lacks.
\<close>

fun csv_loop :: "session \<Rightarrow> nat \<Rightarrow> real list list \<Rightarrow> int \<Rightarrow> real list list \<Rightarrow> real list list" where
  "csv_loop s maxColumns [] rowCount columns = columns"
| "csv_loop s maxColumns (row # rest) rowCount columns =
     (if rowCount < startingRowToRead s
      then csv_loop s maxColumns rest (rowCount + 1) columns
      else if rowCount + 1 > startingRowToRead s + maxRowsToRead s then columns
      else csv_loop s maxColumns rest (rowCount + 1)
             (map (\<lambda>i. columns ! i @ [if i \<ge> length row then 0 else row ! i]) [0..<maxColumns]))"

definition csvColumns :: "session \<Rightarrow> real list list \<Rightarrow> real list list" where
  "csvColumns s rows =
     (let maxColumns = foldl (\<lambda>m row. max m (length row)) 0 rows
      in csv_loop s maxColumns rows 0 (replicate maxColumns []))"

subsection \<open>Z-commands\<close>

text \<open>
  Python's format specification \<open>0wd\<close>: the decimal digits, zero-padded to the width
  \<open>w\<close>, the sign counted in the width.
\<close>

definition digit_char :: "nat \<Rightarrow> char" where
  "digit_char d = char_of (48 + d)"

fun decimal :: "nat \<Rightarrow> bytes" where
  "decimal n = (if n < 10 then [digit_char n] else decimal (n div 10) @ [digit_char (n mod 10)])"

definition zfill :: "nat \<Rightarrow> bytes \<Rightarrow> bytes" where
  "zfill w ds = replicate (w - length ds) (CHR ''0'') @ ds"

definition format_d :: "nat \<Rightarrow> int \<Rightarrow> bytes" where
  "format_d w n =
     (if n < 0 then ''-'' @ zfill (w - 1) (decimal (nat (- n))) else zfill w (decimal (nat n)))"

text \<open>
  The loop of \<open>convertNumbersToZCommands\<close> over the index \<open>i\<close>; \<open>n\<close> is the length of the
  (truncated) input, \<open>z_command\<close> the command under construction.
\<close>

fun z_loop :: "nat \<Rightarrow> nat \<Rightarrow> real list \<Rightarrow> bytes \<Rightarrow> bytes list \<Rightarrow> bytes list" where
  "z_loop n i [] z_command z_commandsOutput = z_commandsOutput"
| "z_loop n i (v # rest) z_command z_commandsOutput =
     (let zc0 = (if i mod 64 = 0 then ''Z'' @ format_d 2 (int (i div 64)) else z_command);
          val = max 0 (min MAX_SRAM_VALUE (py_int v));
          zc1 = zc0 @ format_d 3 val
      in if i mod 64 = 63 \<or> int i = int n - 1
         then z_loop n (i + 1) rest (zc1 @ [CHR 0x0D, CHR 0x0A])
                (z_commandsOutput @ [zc1 @ [CHR 0x0D, CHR 0x0A]])
         else z_loop n (i + 1) rest zc1 z_commandsOutput)"

text \<open>
  For more than 4096 values the source builds its warning by adding an \<open>int\<close> to a
  \<open>str\<close>, which raises \<open>TypeError\<close> when messages are enabled; otherwise the input is cut.
\<close>

definition convertNumbersToZCommands :: "session \<Rightarrow> real list \<Rightarrow> error + bytes list" where
  "convertNumbersToZCommands s valuesInput =
     (if int (length valuesInput) > MAX_SRAM_SAMPLES \<and> doesPrint s then Inl TypeError
      else
        (let vs = (if int (length valuesInput) > MAX_SRAM_SAMPLES
                   then take (nat MAX_SRAM_SAMPLES) valuesInput else valuesInput)
         in Inr (z_loop (length vs) 0 vs [] [])))"

subsection \<open>Reading Z-commands back\<close>

text \<open>
  Modelled from the spec: the repository has no decoder of Z-commands. This one reads
  the frame format the specification gives: the tag \<open>Z\<close>, a two-digit block index, one
  three-digit decimal per value and the two-byte terminator. The \<open>k\<close>-th command must
  carry the block index \<open>k\<close>; anything else is rejected with \<open>None\<close>.
\<close>

definition digit_val :: "char \<Rightarrow> nat option" where
  "digit_val c = (if 48 \<le> (of_char c :: nat) \<and> (of_char c :: nat) \<le> 57
                  then Some (of_char c - 48) else None)"

fun parse_values :: "bytes \<Rightarrow> int list option" where
  "parse_values [] = Some []"
| "parse_values (a # b # c # rest) =
     (case (digit_val a, digit_val b, digit_val c, parse_values rest) of
        (Some x, Some y, Some z, Some vs) \<Rightarrow> Some (int (100 * x + 10 * y + z) # vs)
      | _ \<Rightarrow> None)"
| "parse_values _ = None"

definition decodeZCommand :: "nat \<Rightarrow> bytes \<Rightarrow> int list option" where
  "decodeZCommand k cmd =
     (case cmd of
        t # a # b # rest \<Rightarrow>
          (case (digit_val a, digit_val b) of
             (Some x, Some y) \<Rightarrow>
               if t = CHR ''Z'' \<and> 10 * x + y = k \<and> length rest \<ge> 2
                  \<and> drop (length rest - 2) rest = EOL
               then parse_values (take (length rest - 2) rest)
               else None
           | _ \<Rightarrow> None)
      | _ \<Rightarrow> None)"

fun decodeZCommands :: "nat \<Rightarrow> bytes list \<Rightarrow> int list option" where
  "decodeZCommands k [] = Some []"
| "decodeZCommands k (cmd # cmds) =
     (case (decodeZCommand k cmd, decodeZCommands (k + 1) cmds) of
        (Some vs, Some ws) \<Rightarrow> Some (vs @ ws)
      | _ \<Rightarrow> None)"

subsection \<open>Instances used in the worked examples\<close>

text \<open>A decoder that accepts exactly the 7-bit byte strings, all of which are UTF-8.\<close>

fun ascii :: "bytes \<Rightarrow> bool" where
  "ascii [] = True"
| "ascii (c # cs) = ((of_char c :: nat) < 128 \<and> ascii cs)"

section \<open>Properties\<close>

subsection \<open>Load parameters\<close>

lemma setLoadParameters_rows:
  "maxRowsToRead (setLoadParameters s a w r b c d e f g h) =
     (case r of None \<Rightarrow> maxRowsToRead s | Some v \<Rightarrow> if v = -1 \<or> 4096 < v then 4096 else v)"
  "maxRowsToWrite (setLoadParameters s a w r b c d e f g h) =
     (case w of None \<Rightarrow> maxRowsToWrite s | Some v \<Rightarrow> if v = -1 \<or> 4096 < v then 4096 else v)"
  by (simp_all add: setLoadParameters_def Let_def AUTO_DETECT_def MAX_SRAM_SAMPLES_def
      split: option.splits)

text \<open>
  Claim C10. After \<open>setLoadParameters\<close>, whatever its arguments, \<open>maxRowsToRead\<close> and
  \<open>maxRowsToWrite\<close> are at most 4096 whenever they were before the call, as they are
  after the constructor: a value above 4096 is stored as 4096, the sentinel -1 is
  replaced by 4096, and a parameter left at \<open>None\<close> leaves its field as it was (with every
  parameter at \<open>None\<close> the session is unchanged).
\<close>

theorem setLoadParameters_capacity:
  "(maxRowsToRead s \<le> 4096 \<and> maxRowsToWrite s \<le> 4096 \<longrightarrow>
      maxRowsToRead (setLoadParameters s a w r b c d e f g h) \<le> 4096 \<and>
      maxRowsToWrite (setLoadParameters s a w r b c d e f g h) \<le> 4096)
   \<and> maxRowsToRead (setLoadParameters s a w r b c d e f g h) =
       (case r of None \<Rightarrow> maxRowsToRead s | Some v \<Rightarrow> if v = -1 \<or> 4096 < v then 4096 else v)
   \<and> maxRowsToWrite (setLoadParameters s a w r b c d e f g h) =
       (case w of None \<Rightarrow> maxRowsToWrite s | Some v \<Rightarrow> if v = -1 \<or> 4096 < v then 4096 else v)
   \<and> setLoadParameters s None None None None None None None None None None = s
   \<and> maxRowsToRead (init port gl pl) \<le> 4096 \<and> maxRowsToWrite (init port gl pl) \<le> 4096"
  by (simp add: setLoadParameters_rows split: option.splits)
     (simp add: setLoadParameters_def init_def MAX_SRAM_SAMPLES_def)

theorem setLoadParameters_capacity_witness:
  "maxRowsToRead (init None False False) \<le> 4096 \<and> maxRowsToWrite (init None False False) \<le> 4096
   \<and> maxRowsToRead (setLoadParameters (init None False False) None (Some (-1)) (Some 5000)
        None None None None None None None) = 4096
   \<and> maxRowsToWrite (setLoadParameters (init None False False) None (Some (-1)) (Some 5000)
        None None None None None None None) = 4096"
  using setLoadParameters_capacity [of "init None False False" None "Some (-1)" "Some 5000"
      None None None None None None None None False False]
  by (simp add: init_def MAX_SRAM_SAMPLES_def)

subsection \<open>The OVER round trip\<close>

lemma writeHandler_ok:
  "printWriteLog s \<longrightarrow> utf8 line \<Longrightarrow>
   writeHandler utf8 s line =
     (None, s\<lparr>writeLog := writeLog s @ (if generateWriteLog s then line else []),
              ser := map_option (\<lambda>t. t\<lparr>tx := tx t @ line\<rparr>) (ser s)\<rparr>)"
  by (cases "ser s") (auto simp: writeHandler_def Let_def)

lemma writeHandler_cases:
  "writeHandler utf8 s line = (e, s') \<Longrightarrow>
     (e = Some UnicodeDecodeError \<and> s' = s) \<or>
     (e = None \<and> s' = s\<lparr>writeLog := writeLog s @ (if generateWriteLog s then line else []),
              ser := map_option (\<lambda>t. t\<lparr>tx := tx t @ line\<rparr>) (ser s)\<rparr>)"
  by (cases "ser s") (auto simp: writeHandler_def Let_def split: if_splits)

lemma sendOver_no_transport:
  assumes "ser s = None"
  shows "sendOverWaitForOver utf8 s =
     (if printWriteLog s \<and> \<not> utf8 OVER_W then (Some UnicodeDecodeError, s\<lparr>needsFinalOver := False\<rparr>)
      else (None, s\<lparr>needsFinalOver := False,
                     writeLog := writeLog s @ (if generateWriteLog s then OVER_W else [])\<rparr>))"
  using assms by (simp add: sendOverWaitForOver_def writeHandler_def read_def Let_def)

lemma sendOver_no_transport_ok:
  assumes "ser s = None" and "printWriteLog s \<longrightarrow> utf8 OVER_W"
  shows "sendOverWaitForOver utf8 s =
     (None, s\<lparr>needsFinalOver := False,
                     writeLog := writeLog s @ (if generateWriteLog s then OVER_W else [])\<rparr>)"
  using assms by (auto simp: sendOver_no_transport)

text \<open>
  Claim C1, as the code has it. With a transport, \<open>sendOverWaitForOver\<close> writes the
  request and reads up to four bytes: on exactly \<open>OVER\<close> it succeeds, on anything else
  (also nothing, a timeout) it fails with \<open>TimeoutError\<close> carrying the bytes read. The
  flag \<open>needsFinalOver\<close> is cleared before the write, so it is false afterwards in both
  cases.
\<close>

theorem sendOverWaitForOver_round_trip:
  assumes "ser s = Some t" and "printWriteLog s \<longrightarrow> utf8 OVER_W"
  shows "(let dataRead = (case script t of [] \<Rightarrow> [] | r # rs \<Rightarrow> take (length OVER_R) r)
          in fst (sendOverWaitForOver utf8 s) =
               (if dataRead = OVER_R then None else Some (TimeoutError dataRead)))
         \<and> \<not> needsFinalOver (snd (sendOverWaitForOver utf8 s))
         \<and> map_option tx (ser (snd (sendOverWaitForOver utf8 s))) = Some (tx t @ OVER_W)"
  using assms
  by (simp add: sendOverWaitForOver_def writeHandler_ok read_def Let_def split: list.splits)

theorem sendOverWaitForOver_round_trip_witness:
  "ser ((init (Some \<lparr>tx = [], script = [''OVER'']\<rparr>) False False)\<lparr>needsFinalOver := True\<rparr>)
     = Some \<lparr>tx = [], script = [''OVER'']\<rparr>
   \<and> ascii OVER_W
   \<and> fst (sendOverWaitForOver ascii
          ((init (Some \<lparr>tx = [], script = [''OVER'']\<rparr>) False False)\<lparr>needsFinalOver := True\<rparr>)) = None
   \<and> \<not> needsFinalOver (snd (sendOverWaitForOver ascii
          ((init (Some \<lparr>tx = [], script = [''OVER'']\<rparr>) False False)\<lparr>needsFinalOver := True\<rparr>)))"
  using sendOverWaitForOver_round_trip [of
      "(init (Some \<lparr>tx = [], script = [''OVER'']\<rparr>) False False)\<lparr>needsFinalOver := True\<rparr>"
      "\<lparr>tx = [], script = [''OVER'']\<rparr>" ascii]
  by (simp add: init_def OVER_R_def OVER_W_def EOL_def)

text \<open>
  The claim as stated asks for the flag to stay set after a failed round trip. A session
  that owes an acknowledgment and whose transport answers \<open>NOPE\<close> fails and ends with
  the flag cleared.
\<close>

theorem sendOverWaitForOver_failure_clears_flag:
  "fst (sendOverWaitForOver ascii
          ((init (Some \<lparr>tx = [], script = [''NOPE'']\<rparr>) False False)\<lparr>needsFinalOver := True\<rparr>))
     = Some (TimeoutError ''NOPE'')
   \<and> \<not> needsFinalOver (snd (sendOverWaitForOver ascii
          ((init (Some \<lparr>tx = [], script = [''NOPE'']\<rparr>) False False)\<lparr>needsFinalOver := True\<rparr>)))"
  by (simp add: sendOverWaitForOver_def writeHandler_def read_def init_def OVER_R_def Let_def)

subsection \<open>A session without a transport\<close>

lemma write_loop_step:
  assumes "line \<noteq> OVER_W"
    and "writeHandler utf8 (if startswith line ''Z'' then s\<lparr>needsFinalOver := True\<rparr> else s) line
           = (e2, s2)"
    and "ser s2 = None"
  shows "write_loop utf8 s (line # rest) =
     (case e2 of
        Some e \<Rightarrow> (Some e, s2)
      | None \<Rightarrow> if line = CMD_XXX \<and> \<not> utf8 [] then (Some UnicodeDecodeError, s2)
                else write_loop utf8 s2 rest)"
  using assms by (simp add: read_def Let_def split: option.splits)

lemma write_loop_no_transport:
  "ser s = None \<Longrightarrow> write_loop utf8 s ls = (e, s') \<Longrightarrow>
   e \<noteq> Some (TimeoutError d) \<and> ser s' = None"
proof (induction ls arbitrary: s)
  case Nil
  then show ?case by simp
next
  case (Cons line rest)
  show ?case
  proof (cases "line = OVER_W")
    case True
    show ?thesis
    proof (cases "printWriteLog s \<and> \<not> utf8 OVER_W")
      case bad: True
      with True Cons.prems show ?thesis
        by (auto simp: sendOver_no_transport)
    next
      case good: False
      define s1 where "s1 = s\<lparr>needsFinalOver := False,
                     writeLog := writeLog s @ (if generateWriteLog s then OVER_W else [])\<rparr>"
      have "ser s1 = None" using Cons.prems(1) by (simp add: s1_def)
      moreover have "write_loop utf8 s (line # rest) = write_loop utf8 s1 rest"
        using True good Cons.prems(1) sendOver_no_transport_ok [of s utf8]
        by (simp add: s1_def split del: if_split)
      then have "write_loop utf8 s1 rest = (e, s')"
        using Cons.prems(2) by simp
      ultimately show ?thesis by (rule Cons.IH)
    qed
  next
    case False
    define s1 where "s1 = (if startswith line ''Z'' then s\<lparr>needsFinalOver := True\<rparr> else s)"
    have s1: "ser s1 = None" using Cons.prems(1) by (simp add: s1_def)
    obtain e2 s2 where w: "writeHandler utf8 s1 line = (e2, s2)" by (cases "writeHandler utf8 s1 line")
    from writeHandler_cases [OF w] s1 have s2: "ser s2 = None" by auto
    from writeHandler_cases [OF w] have e2: "e2 = None \<or> e2 = Some UnicodeDecodeError" by auto
    note step = write_loop_step [OF False w [unfolded s1_def] s2, of rest]
    show ?thesis
    proof (cases "e2 = None \<and> \<not> (line = CMD_XXX \<and> \<not> utf8 [])")
      case True
      with step Cons.prems(2) have "write_loop utf8 s2 rest = (e, s')" by auto
      with s2 show ?thesis by (intro Cons.IH)
    next
      case stop: False
      with step Cons.prems(2) e2 have "e = Some UnicodeDecodeError" "s' = s2"
        by (auto split: option.splits if_splits)
      with s2 show ?thesis by simp
    qed
  qed
qed

lemma write_loop_log:
  "ser s = None \<Longrightarrow> utf8 [] \<Longrightarrow> printWriteLog s \<longrightarrow> list_all utf8 ls \<Longrightarrow>
   fst (write_loop utf8 s ls) = None \<and>
   writeLog (snd (write_loop utf8 s ls)) = writeLog s @ (if generateWriteLog s then concat ls else [])"
proof (induction ls arbitrary: s)
  case Nil
  then show ?case by simp
next
  case (Cons line rest)
  show ?case
  proof (cases "line = OVER_W")
    case True
    define s1 where "s1 = s\<lparr>needsFinalOver := False,
                     writeLog := writeLog s @ (if generateWriteLog s then OVER_W else [])\<rparr>"
    have s1: "ser s1 = None" "printWriteLog s1 = printWriteLog s"
      "generateWriteLog s1 = generateWriteLog s"
      "writeLog s1 = writeLog s @ (if generateWriteLog s then line else [])"
      using Cons.prems(1) True by (simp_all add: s1_def)
    have "write_loop utf8 s (line # rest) = write_loop utf8 s1 rest"
      using True Cons.prems sendOver_no_transport_ok [of s utf8]
      by (simp add: s1_def split del: if_split)
    moreover have "fst (write_loop utf8 s1 rest) = None \<and>
       writeLog (snd (write_loop utf8 s1 rest)) =
         writeLog s1 @ (if generateWriteLog s1 then concat rest else [])"
      using Cons.prems s1 by (intro Cons.IH) simp_all
    ultimately show ?thesis using s1 by simp
  next
    case False
    define s1 where "s1 = (if startswith line ''Z'' then s\<lparr>needsFinalOver := True\<rparr> else s)"
    define s2 where "s2 = s1\<lparr>writeLog := writeLog s1 @ (if generateWriteLog s1 then line else [])\<rparr>"
    have s1: "ser s1 = None" "printWriteLog s1 = printWriteLog s"
      "generateWriteLog s1 = generateWriteLog s" "writeLog s1 = writeLog s"
      using Cons.prems(1) by (simp_all add: s1_def)
    have w: "writeHandler utf8 s1 line = (None, s2)"
      using Cons.prems(3) s1 by (simp add: writeHandler_ok s2_def)
    have s2: "ser s2 = None" "printWriteLog s2 = printWriteLog s"
      "generateWriteLog s2 = generateWriteLog s"
      "writeLog s2 = writeLog s @ (if generateWriteLog s then line else [])"
      using s1 by (simp_all add: s2_def)
    have "write_loop utf8 s (line # rest) = write_loop utf8 s2 rest"
      using write_loop_step [OF False w [unfolded s1_def] s2(1), of rest] Cons.prems(2) by simp
    moreover have "fst (write_loop utf8 s2 rest) = None \<and>
       writeLog (snd (write_loop utf8 s2 rest)) =
         writeLog s2 @ (if generateWriteLog s2 then concat rest else [])"
      using Cons.prems s2 by (intro Cons.IH) simp_all
    ultimately show ?thesis using s2 by simp
  qed
qed

text \<open>
  Claim C9. Without a transport neither \<open>sendOverWaitForOver\<close> nor \<open>write\<close> raises
  \<open>TimeoutError\<close>, and the session stays without a transport. When the lines decode
  (which only matters if they are printed), both return normally and the write log,
  if it is generated, grows by exactly the encoded commands; these are the bytes
  \<open>_writeHandler\<close> hands to a transport when there is one, with the same write log.
\<close>

theorem no_transport_dry_run:
  assumes "ser s = None"
  shows "fst (sendOverWaitForOver utf8 s) \<noteq> Some (TimeoutError d)
       \<and> fst (write_lines utf8 s lines) \<noteq> Some (TimeoutError d)
       \<and> ser (snd (sendOverWaitForOver utf8 s)) = None
       \<and> ser (snd (write_lines utf8 s lines)) = None
       \<and> ((printWriteLog s \<longrightarrow> utf8 OVER_W) \<longrightarrow>
            sendOverWaitForOver utf8 s =
              (None, s\<lparr>needsFinalOver := False,
                       writeLog := writeLog s @ (if generateWriteLog s then OVER_W else [])\<rparr>))
       \<and> (utf8 [] \<and> (printWriteLog s \<longrightarrow> list_all utf8 (convertCommandsToListOfBytes lines)) \<longrightarrow>
            fst (write_lines utf8 s lines) = None \<and>
            writeLog (snd (write_lines utf8 s lines)) =
              writeLog s @ (if generateWriteLog s
                            then concat (convertCommandsToListOfBytes lines) else []))
       \<and> ((printWriteLog s \<longrightarrow> utf8 line) \<longrightarrow>
            map_option tx (ser (snd (writeHandler utf8 (s\<lparr>ser := Some t\<rparr>) line))) = Some (tx t @ line) \<and>
            writeLog (snd (writeHandler utf8 (s\<lparr>ser := Some t\<rparr>) line)) =
              writeLog (snd (writeHandler utf8 s line)))"
proof -
  obtain e s' where r: "write_loop utf8 s (convertCommandsToListOfBytes lines) = (e, s')"
    by (cases "write_loop utf8 s (convertCommandsToListOfBytes lines)")
  from write_loop_no_transport [OF assms r]
  have a: "fst (write_lines utf8 s lines) \<noteq> Some (TimeoutError d)"
    "ser (snd (write_lines utf8 s lines)) = None"
    by (simp_all add: write_lines_def r)
  have b: "fst (sendOverWaitForOver utf8 s) \<noteq> Some (TimeoutError d)"
    "ser (snd (sendOverWaitForOver utf8 s)) = None"
    using assms by (simp_all add: sendOver_no_transport)
  have c: "(printWriteLog s \<longrightarrow> utf8 OVER_W) \<longrightarrow>
            sendOverWaitForOver utf8 s =
              (None, s\<lparr>needsFinalOver := False,
                       writeLog := writeLog s @ (if generateWriteLog s then OVER_W else [])\<rparr>)"
    using assms by (simp add: sendOver_no_transport)
  have d: "utf8 [] \<and> (printWriteLog s \<longrightarrow> list_all utf8 (convertCommandsToListOfBytes lines)) \<longrightarrow>
            fst (write_lines utf8 s lines) = None \<and>
            writeLog (snd (write_lines utf8 s lines)) =
              writeLog s @ (if generateWriteLog s
                            then concat (convertCommandsToListOfBytes lines) else [])"
    using write_loop_log [OF assms, of utf8 "convertCommandsToListOfBytes lines"]
    by (simp add: write_lines_def)
  have e: "(printWriteLog s \<longrightarrow> utf8 line) \<longrightarrow>
            map_option tx (ser (snd (writeHandler utf8 (s\<lparr>ser := Some t\<rparr>) line))) = Some (tx t @ line) \<and>
            writeLog (snd (writeHandler utf8 (s\<lparr>ser := Some t\<rparr>) line)) =
              writeLog (snd (writeHandler utf8 s line))"
    by (simp add: writeHandler_ok)
  from a b c d e show ?thesis by blast
qed

theorem no_transport_dry_run_witness:
  "ser (init None True True) = None
   \<and> ascii [] \<and> ascii OVER_W \<and> ascii ''ABC''
   \<and> list_all ascii (convertCommandsToListOfBytes [''Z00001002'', ''OVER''])
   \<and> fst (write_lines ascii (init None True True) [''Z00001002'', ''OVER'']) = None
   \<and> writeLog (snd (write_lines ascii (init None True True) [''Z00001002'', ''OVER''])) =
       ''Z00001002'' @ EOL @ ''OVER'' @ EOL
   \<and> sendOverWaitForOver ascii (init None True True) =
       (None, (init None True True)\<lparr>writeLog := OVER_W\<rparr>)
   \<and> map_option tx (ser (snd (writeHandler ascii
         ((init None True True)\<lparr>ser := Some \<lparr>tx = [], script = []\<rparr>\<rparr>) ''ABC''))) = Some ''ABC''
   \<and> writeLog (snd (writeHandler ascii (init None True True) ''ABC'')) = ''ABC''"
  using no_transport_dry_run [of "init None True True" ascii "[]" "[''Z00001002'', ''OVER'']"
      "''ABC''" "\<lparr>tx = [], script = []\<rparr>"]
  by (simp add: init_def convertCommandsToListOfBytes_def EOL_def OVER_W_def OVER_R_def
      writeHandler_def)

subsection \<open>The quantizer\<close>

lemma py_round_cases: "py_round x = \<lfloor>x\<rfloor> \<or> py_round x = \<lfloor>x\<rfloor> + 1"
  by (simp add: py_round_def Let_def)

lemma py_round_near: "\<bar>real_of_int (py_round x) - x\<bar> \<le> 1/2"
proof -
  have "real_of_int \<lfloor>x\<rfloor> \<le> x" "x < real_of_int \<lfloor>x\<rfloor> + 1" by linarith+
  then show ?thesis by (auto simp: py_round_def Let_def)
qed

lemma py_round_mono:
  assumes "x \<le> y"
  shows "py_round x \<le> py_round y"
proof (cases "\<lfloor>x\<rfloor> = \<lfloor>y\<rfloor>")
  case True
  with assms show ?thesis by (auto simp: py_round_def Let_def)
next
  case False
  with assms have "\<lfloor>x\<rfloor> < \<lfloor>y\<rfloor>" using floor_mono [of x y] by linarith
  moreover have "py_round x \<le> \<lfloor>x\<rfloor> + 1" using py_round_cases [of x] by auto
  moreover have "\<lfloor>y\<rfloor> \<le> py_round y" using py_round_cases [of y] by auto
  ultimately show ?thesis by linarith
qed

lemma binade_eq:
  assumes "2 powi k \<le> \<bar>x\<bar>" and "\<bar>x\<bar> < 2 powi (k + 1)"
  shows "\<lfloor>log 2 \<bar>x\<bar>\<rfloor> = k"
proof -
  have p: "(2::real) powr real_of_int j = 2 powi j" for j
    by (simp add: powr_real_of_int power_int_def power_one_over inverse_eq_divide)
  have "0 < (2::real) powi k" by simp
  with assms(1) have "0 < \<bar>x\<bar>" by linarith
  then show ?thesis
    using assms floor_log_eq_powr_iff [of "\<bar>x\<bar>" 2 k] p [of k] p [of "k + 1"] by simp
qed

lemma round_double_eval:
  assumes "2 powi k \<le> \<bar>x\<bar>" and "\<bar>x\<bar> < 2 powi (k + 1)" and "- 1022 \<le> k"
    and "u = 2 powi (k - 52)" and "py_round (x / u) = m"
    and "\<bar>real_of_int m * u\<bar> < 2 powi 1024"
  shows "round_double x = Fl (real_of_int m * u)"
proof -
  have "0 < (2::real) powi k" by simp
  with assms(1) have "0 < \<bar>x\<bar>" by linarith
  then have "x \<noteq> 0" by auto
  moreover have "binade x = k" using binade_eq [OF assms(1,2)] assms(3) by (simp add: binade_def)
  moreover have "\<not> real_of_int m * u \<ge> 2 powi 1024" "\<not> real_of_int m * u \<le> - (2 powi 1024)"
    using assms(6) by linarith+
  ultimately show ?thesis using assms(4,5) by (simp add: round_double_def Let_def)
qed

lemma round_double_overflow:
  assumes "2 powi k \<le> \<bar>x\<bar>" and "\<bar>x\<bar> < 2 powi (k + 1)" and "- 1022 \<le> k"
    and "u = 2 powi (k - 52)" and "py_round (x / u) = m"
    and "real_of_int m * u \<ge> 2 powi 1024"
  shows "round_double x = PosInf"
proof -
  have "0 < (2::real) powi k" by simp
  with assms(1) have "0 < \<bar>x\<bar>" by linarith
  then have "x \<noteq> 0" by auto
  moreover have "binade x = k" using binade_eq [OF assms(1,2)] assms(3) by (simp add: binade_def)
  ultimately show ?thesis using assms(4,5,6) by (simp add: round_double_def Let_def)
qed

lemma round_double_small:
  "round_double 0 = Fl 0" "round_double 1 = Fl 1" "round_double 2 = Fl 2"
  "round_double (2 * real_of_int MAX_SRAM_VALUE) = Fl 1022"
  "round_double (1 * real_of_int MAX_SRAM_VALUE) = Fl 511"
  "round_double (0 * real_of_int MAX_SRAM_VALUE) = Fl 0"
  "round_double (1022 / 2) = Fl 511" "round_double (511 / 2) = Fl (511 / 2)"
  "round_double (0 / 2) = Fl 0"
  using round_double_eval [of 0 1 "1 / 2 ^ 52" "2 ^ 52"]
    round_double_eval [of 1 2 "1 / 2 ^ 51" "2 ^ 52"]
    round_double_eval [of 9 1022 "1 / 2 ^ 43" "511 * 2 ^ 44"]
    round_double_eval [of 8 511 "1 / 2 ^ 44" "511 * 2 ^ 44"]
    round_double_eval [of 7 "511 / 2" "1 / 2 ^ 45" "511 * 2 ^ 44"]
  by (simp_all add: py_round_def Let_def power_int_def power_one_over MAX_SRAM_VALUE_def
      round_double_def)

lemma registerValue_points:
  "registerValue (- 1) = Inr 0" "registerValue 1 = Inr 511" "registerValue 0 = Inr 256"
proof -
  have a: "(- 1 :: real) + 1 = 0" "(1 :: real) + 1 = 2" "(0 :: real) + 1 = 1" by simp_all
  have c: "max 0 (min MAX_SRAM_VALUE (py_round 0)) = 0"
    "max 0 (min MAX_SRAM_VALUE (py_round 511)) = 511"
    "max 0 (min MAX_SRAM_VALUE (py_round (511 / 2))) = 256"
    by (simp_all add: py_round_def MAX_SRAM_VALUE_def)
  show "registerValue (- 1) = Inr 0"
    by (simp only: registerValue_def a round_double_small py_float.case c)
  show "registerValue 1 = Inr 511"
    by (simp only: registerValue_def a round_double_small py_float.case c)
  show "registerValue 0 = Inr 256"
    by (simp only: registerValue_def a round_double_small py_float.case c)
qed

text \<open>
  A double on which rounding matters: \<open>v + 1\<close> is exact, the product with 511 rounds down
  to 257, and the tie 128.5 goes to the even 128 (the exact real value of
  \<open>(v + 1) * 511 / 2\<close> lies above 128.5).
\<close>

lemma registerValue_rounded_tie: "registerValue (- 4477159707836031 / 2 ^ 53) = Inr 128"
proof -
  have a: "round_double (- 4477159707836031 / 2 ^ 53 + 1) = Fl (4530039546904961 / 2 ^ 53)"
    using round_double_eval [of "- 1" "- 4477159707836031 / 2 ^ 53 + 1" "1 / 2 ^ 53" 4530039546904961]
    by (simp add: py_round_def Let_def power_int_def power_one_over)
  have b: "round_double (4530039546904961 / 2 ^ 53 * real_of_int MAX_SRAM_VALUE) = Fl 257"
    using round_double_eval [of 8 "4530039546904961 / 2 ^ 53 * 511" "1 / 2 ^ 44" "257 * 2 ^ 44"]
    by (simp add: py_round_def Let_def power_int_def power_one_over MAX_SRAM_VALUE_def)
  have c: "round_double (257 / 2) = Fl (257 / 2)"
    using round_double_eval [of 7 "257 / 2" "1 / 2 ^ 45" "257 * 2 ^ 44"]
    by (simp add: py_round_def Let_def power_int_def power_one_over)
  have d: "max 0 (min MAX_SRAM_VALUE (py_round (257 / 2))) = 128"
    by (simp add: py_round_def MAX_SRAM_VALUE_def)
  show ?thesis
    by (simp only: registerValue_def a b c d py_float.case)
qed

lemma registerValue_clamps: "registerValue 2 = Inr 511" "registerValue (- 3) = Inr 0"
proof -
  have a: "round_double (2 + 1) = Fl 3" "round_double (- 3 + 1) = Fl (- 2)"
    using round_double_eval [of 1 3 "1 / 2 ^ 51" "3 * 2 ^ 51"]
      round_double_eval [of 1 "- 2" "1 / 2 ^ 51" "- (2 ^ 52)"]
    by (simp_all add: py_round_def Let_def power_int_def power_one_over)
  have b: "round_double (3 * real_of_int MAX_SRAM_VALUE) = Fl 1533"
    "round_double (- 2 * real_of_int MAX_SRAM_VALUE) = Fl (- 1022)"
    using round_double_eval [of 10 1533 "1 / 2 ^ 42" "1533 * 2 ^ 42"]
      round_double_eval [of 9 "- 1022" "1 / 2 ^ 43" "- (1022 * 2 ^ 43)"]
    by (simp_all add: py_round_def Let_def power_int_def power_one_over MAX_SRAM_VALUE_def)
  have c: "round_double (1533 / 2) = Fl (1533 / 2)" "round_double (- 1022 / 2) = Fl (- 511)"
    using round_double_eval [of 9 "1533 / 2" "1 / 2 ^ 43" "1533 * 2 ^ 42"]
      round_double_eval [of 8 "- 511" "1 / 2 ^ 44" "- (511 * 2 ^ 44)"]
    by (simp_all add: py_round_def Let_def power_int_def power_one_over)
  have d: "max 0 (min MAX_SRAM_VALUE (py_round (1533 / 2))) = 511"
    "max 0 (min MAX_SRAM_VALUE (py_round (- 511))) = 0"
    by (simp_all add: py_round_def MAX_SRAM_VALUE_def)
  show "registerValue 2 = Inr 511"
    by (simp only: registerValue_def a b c d py_float.case)
  show "registerValue (- 3) = Inr 0"
    by (simp only: registerValue_def a b c d py_float.case)
qed

text \<open>A finite result of \<open>round_double\<close> is within half a unit in the last place.\<close>

lemma round_double_near:
  assumes "round_double x = Fl y"
  shows "\<bar>y - x\<bar> \<le> 2 powi (binade x - 52) / 2"
proof (cases "x = 0")
  case True
  with assms show ?thesis by (simp add: round_double_def)
next
  case False
  define u :: real where "u = 2 powi (binade x - 52)"
  have u: "0 < u" by (simp add: u_def)
  from assms False have y: "y = real_of_int (py_round (x / u)) * u"
    by (simp add: round_double_def Let_def u_def split: if_splits)
  have "y - x = (real_of_int (py_round (x / u)) - x / u) * u"
    using u by (simp add: y left_diff_distrib)
  then have "\<bar>y - x\<bar> = \<bar>real_of_int (py_round (x / u)) - x / u\<bar> * u"
    using u by (simp only: abs_mult)
  also have "\<dots> \<le> 1 / 2 * u"
    using py_round_near [of "x / u"] u by (intro mult_right_mono) simp_all
  finally show ?thesis by (simp add: u_def)
qed

lemma registerValue_huge: "registerValue (2 ^ 1020) = Inl OverflowError"
proof -
  have a: "round_double (2 ^ 1020 + 1) = Fl (2 ^ 1020)"
    using round_double_eval [of 1020 "2 ^ 1020 + 1" "2 ^ 968" "2 ^ 52"]
    by (simp add: py_round_def Let_def power_int_def)
  have b: "round_double (2 ^ 1020 * real_of_int MAX_SRAM_VALUE) = PosInf"
    using round_double_overflow [of 1028 "2 ^ 1020 * 511" "2 ^ 976" "511 * 2 ^ 44"]
    by (simp add: py_round_def Let_def power_int_def MAX_SRAM_VALUE_def)
  show ?thesis
    by (simp only: registerValue_def a b py_float.case)
qed

text \<open>
  Claim C5. The quantizer gives 0 at -1.0, 511 at 1.0 and 256 at 0.0, and values outside
  the canonical range are clamped as long as the product with 511 is a finite double:
  2.0 gives 511 and -3.0 gives 0. It does fail on a finite input: for the double
  \<open>2 ^ 1020\<close> the product overflows to infinity and the conversion to an integer raises
  \<open>OverflowError\<close> before the clamp is reached.
\<close>

theorem registerValue_overflow:
  "registerValue (2 ^ 1020) = Inl OverflowError
   \<and> normalizedValuesToRegisterValues [0, 2 ^ 1020] = Inl OverflowError
   \<and> normalizedValuesToRegisterValues [- 1, 0, 1] = Inr [0, 256, 511]
   \<and> normalizedValuesToRegisterValues [- 3, 2] = Inr [0, 511]"
  by (simp only: normalizedValuesToRegisterValues.simps registerValue_huge registerValue_points
      registerValue_clamps sum.case simp_thms)

subsection \<open>Samples of one byte\<close>

lemma wav8_mono_keep:
  "startingRowToRead s \<le> rc \<Longrightarrow>
   wav8_loop s 1 bs rc 0 [acc] =
     Inr [acc @ map (\<lambda>raw. of_int (uint raw) / DIVISOR - 1)
                  (take (nat (startingRowToRead s + maxRowsToRead s - rc)) bs)]"
proof (induction bs arbitrary: rc acc)
  case Nil
  then show ?case by simp
next
  case (Cons b bs)
  show ?case
  proof (cases "rc + 1 > startingRowToRead s + maxRowsToRead s")
    case True
    with Cons.prems show ?thesis by simp
  next
    case False
    then have n: "nat (startingRowToRead s + maxRowsToRead s - rc) =
        Suc (nat (startingRowToRead s + maxRowsToRead s - (rc + 1)))" by linarith
    have "startingRowToRead s \<le> rc + 1" using Cons.prems by simp
    from Cons.IH [OF this] False Cons.prems show ?thesis
      by (simp add: n)
  qed
qed

lemma wav8_mono_skip:
  "rc \<le> startingRowToRead s \<Longrightarrow>
   wav8_loop s 1 bs rc 0 [acc] =
     wav8_loop s 1 (drop (nat (startingRowToRead s - rc)) bs) (startingRowToRead s) 0 [acc]"
proof (induction bs arbitrary: rc)
  case Nil
  then show ?case by simp
next
  case (Cons b bs)
  show ?case
  proof (cases "rc < startingRowToRead s")
    case True
    then have n: "nat (startingRowToRead s - rc) = Suc (nat (startingRowToRead s - (rc + 1)))"
      by linarith
    from True have "rc + 1 \<le> startingRowToRead s" by simp
    from Cons.IH [OF this] True show ?thesis by (simp add: n)
  next
    case False
    with Cons.prems have "rc = startingRowToRead s" by simp
    then show ?thesis by simp
  qed
qed

lemma wav8_mono_window:
  assumes "0 \<le> startingRowToRead s"
  shows "wav8_loop s 1 bs 0 0 [[]] =
     Inr [map (\<lambda>raw. of_int (uint raw) / DIVISOR - 1)
            (take (nat (maxRowsToRead s)) (drop (nat (startingRowToRead s)) bs))]"
  using wav8_mono_skip [of 0 s bs "[]"] assms
    wav8_mono_keep [of s "startingRowToRead s" "drop (nat (startingRowToRead s)) bs" "[]"]
  by simp

text \<open>
  For a mono source of one byte per sample and a start offset that is not negative, the
  channel is the window of the bytes read, each byte \<open>raw\<close> turned into
  \<open>raw / 127.75 - 1\<close>: the divisor is 511 / 4.
\<close>

lemma wav8_mono_channels:
  assumes "comptype_NONE w" and "nchannels w = 1" and "sampwidth w = 1"
    and "0 \<le> startingRowToRead s"
  shows "wavChannels s w =
           Inr [map (\<lambda>raw. real_of_int (uint raw) / 127.75 - 1)
                  (take (nat (maxRowsToRead s))
                     (drop (nat (startingRowToRead s))
                        (take (nat (4096 + startingRowToRead s)) (data w))))]"
  using assms wav8_mono_window [OF assms(4)]
  by (simp add: wavChannels_def readframes_def MAX_SRAM_SAMPLES_def DIVISOR_def MAX_SRAM_VALUE_def)

text \<open>
  Claim C3. The bytes 128, 128, 255, 0 of a mono source of one byte per sample become
  1/511, 1/511, 509/511 and -1: the byte 0 is -1.0 and the byte 255 is about 0.9961, but
  the byte 128 is not 0.0. A source of two bytes per sample does turn its zero sample
  into exactly 0.0.
\<close>

theorem wav8_sample_128_not_zero:
  "wavChannels (init None False False)
     \<lparr>comptype_NONE = True, nchannels = 1, sampwidth = 1, data = [128, 128, 255, 0]\<rparr>
     = Inr [[1 / 511, 1 / 511, 509 / 511, - 1]]
   \<and> (1 / 511 :: real) \<noteq> 0
   \<and> wavChannels (init None False False)
     \<lparr>comptype_NONE = True, nchannels = 1, sampwidth = 2, data = [0, 0]\<rparr> = Inr [[0]]"
  by (simp add: wavChannels_def readframes_def init_def MAX_SRAM_SAMPLES_def DIVISOR_def
      MAX_SRAM_VALUE_def loadNumbersFromMultiByteWAV_def Let_def)

subsection \<open>The combiner\<close>

text \<open>
  Claim C2. Combining the channels \<open>[1.0, 1.0]\<close> and \<open>[-1.0, -1.0]\<close> with the weights
  \<open>[1.0, 1.0]\<close> gives \<open>[0.0, 0.0]\<close>. With channels of unequal lengths, here
  \<open>[1.0, 1.0]\<close> and \<open>[1.0]\<close>, the shorter channel does not contribute 0.0 at the index it
  lacks: the combiner raises \<open>IndexError\<close>.
\<close>

theorem weightedAverageChannels_unequal_lengths:
  "weightedAverageChannels ((init None False False)\<lparr>columnWeights := [1, 1]\<rparr>)
     [[1, 1], [1]] [Some [- 1, 1], Some [- 1, 1]] = Inl IndexError
   \<and> weightedAverageChannels ((init None False False)\<lparr>columnWeights := [1, 1]\<rparr>)
     [[1, 1], [- 1, - 1]] [Some [- 1, 1], Some [- 1, 1]] = Inr [0, 0]"
  by (simp add: init_def weightedAverageChannels_def buildColumnWeights_def
      copyListAndForceLength_def weightedSum_def normalizeValue_def upt_rec)

text \<open>
  Claim C8. A selected column at or above the channel count raises \<open>IndexError\<close>, and
  so does one below minus the channel count. The negative index -1 with two channels
  does not: it selects the last channel.
\<close>

theorem weightedAverageChannels_negative_selector:
  "weightedAverageChannels ((init None False False)\<lparr>columnSelected := Some (- 1)\<rparr>)
     [[1], [1 / 2]] [] = Inr [1 / 2]
   \<and> weightedAverageChannels ((init None False False)\<lparr>columnSelected := Some 2\<rparr>)
     [[1], [1 / 2]] [] = Inl IndexError
   \<and> weightedAverageChannels ((init None False False)\<lparr>columnSelected := Some (- 3)\<rparr>)
     [[1], [1 / 2]] [] = Inl IndexError"
  by (simp add: init_def weightedAverageChannels_def buildColumnWeights_def
      copyListAndForceLength_def weightedSum_def normalizeValue_def upt_rec)

subsection \<open>Scaling\<close>

text \<open>
  Claim C7. With auto-scaling on, the values \<open>[-0.25, 0.5]\<close> are divided by the peak 0.5.
  The values \<open>[0.0, 0.5]\<close> have the same non-zero peak and are left as they are, since
  their minimum is 0.
\<close>

theorem applyScaling_zero_extreme:
  "applyScaling ((init None False False)\<lparr>doScaleAuto := True\<rparr>) [0, 1 / 2] = Inr [0, 1 / 2]
   \<and> applyScaling ((init None False False)\<lparr>doScaleAuto := True\<rparr>) [- 1 / 4, 1 / 2] = Inr [- 1 / 2, 1]"
  by (simp add: init_def applyScaling_def)

subsection \<open>The row window\<close>

lemma replicate_2: "replicate 2 x = [x, x]"
  by (simp add: numeral_2_eq_2)

text \<open>
  Claim C4. With a start offset of 1 and one row to read, the two-row CSV source keeps
  its second row in every column. The stereo source of one byte per sample with the
  frames (10, 20) and (30, 40) keeps the byte 20 in channel 0 and nothing in channel 1:
  the window counts bytes, not frames. The stereo source of two bytes per sample with
  one frame to read keeps a sample of the second frame in channel 0.
\<close>

theorem wav_window_not_per_frame:
  "wavChannels ((init None False False)\<lparr>startingRowToRead := 1, maxRowsToRead := 1\<rparr>)
     \<lparr>comptype_NONE = True, nchannels = 2, sampwidth = 1, data = [10, 20, 30, 40]\<rparr>
     = Inr [[20 / 127.75 - 1], []]
   \<and> wavChannels ((init None False False)\<lparr>maxRowsToRead := 1\<rparr>)
     \<lparr>comptype_NONE = True, nchannels = 2, sampwidth = 2, data = [1, 0, 2, 0, 3, 0, 4, 0]\<rparr>
     = Inr [[1 / 32768, 3 / 32768], [2 / 32768]]
   \<and> csvColumns ((init None False False)\<lparr>startingRowToRead := 1, maxRowsToRead := 1\<rparr>)
     [[10, 20], [30, 40]] = [[30], [40]]"
  by (simp add: wavChannels_def readframes_def init_def MAX_SRAM_SAMPLES_def DIVISOR_def
      MAX_SRAM_VALUE_def loadNumbersFromMultiByteWAV_def csvColumns_def upt_rec Let_def
      replicate_2)

subsection \<open>Z-commands and back\<close>

lemma digit_val_digit_char: "d < 10 \<Longrightarrow> digit_val (digit_char d) = Some d"
  by (simp add: digit_val_def digit_char_def)

lemma digit_char_0: "CHR ''0'' = digit_char 0"
  unfolding digit_char_def by code_simp

lemma decimal_small: "n < 10 \<Longrightarrow> decimal n = [digit_char n]"
  by simp

lemma decimal_two:
  assumes "10 \<le> n" and "n < 100"
  shows "decimal n = [digit_char (n div 10), digit_char (n mod 10)]"
proof -
  have "n div 10 < 10" using assms by (simp add: less_mult_imp_div_less)
  then show ?thesis using assms by (subst decimal.simps) (simp add: decimal_small)
qed

lemma decimal_three:
  assumes "100 \<le> n" and "n < 1000"
  shows "decimal n = [digit_char (n div 100), digit_char (n div 10 mod 10), digit_char (n mod 10)]"
proof -
  have a: "10 \<le> n div 10" "n div 10 < 100" "n div 10 div 10 = n div 100"
    using assms by (simp_all add: div_mult2_eq [symmetric] less_mult_imp_div_less)
  have "decimal n = decimal (n div 10) @ [digit_char (n mod 10)]"
    using assms by (subst decimal.simps) simp
  then show ?thesis by (simp add: decimal_two [OF a(1,2)] a(3) del: decimal.simps)
qed

lemma format_d_2:
  "k < 100 \<Longrightarrow> format_d 2 (int k) = [digit_char (k div 10), digit_char (k mod 10)]"
  by (cases "k < 10")
     (simp_all add: format_d_def zfill_def decimal_two decimal_small digit_char_0 del: decimal.simps)

lemma format_d_3:
  assumes "0 \<le> c" and "c < 1000"
  shows "format_d 3 c =
     [digit_char (nat c div 100), digit_char (nat c div 10 mod 10), digit_char (nat c mod 10)]"
proof -
  have r: "replicate 2 x = [x, x]" for x :: char by (simp add: numeral_2_eq_2)
  consider "nat c < 10" | "10 \<le> nat c" "nat c < 100" | "100 \<le> nat c" "nat c < 1000"
    using assms by linarith
  then show ?thesis
  proof cases
    case 1
    then have "nat c div 100 = 0" "nat c div 10 = 0" by simp_all
    with 1 assms show ?thesis
      by (simp add: format_d_def zfill_def decimal_small digit_char_0 r del: decimal.simps)
  next
    case 2
    then have "nat c div 100 = 0" "nat c div 10 < 10" by (simp_all add: less_mult_imp_div_less)
    with 2 assms show ?thesis
      by (simp add: format_d_def zfill_def decimal_two digit_char_0 del: decimal.simps)
  next
    case 3
    with assms show ?thesis
      by (simp add: format_d_def zfill_def decimal_three del: decimal.simps)
  qed
qed

lemma three_digits: "100 * (n div 100) + 10 * (n div 10 mod 10) + n mod 10 = (n::nat)"
proof -
  have "n mod 100 = 10 * (n div 10 mod 10) + n mod 10"
    using mod_mult2_eq [of n 10 10] by simp
  then show ?thesis using mult_div_mod_eq [of 100 n] by simp
qed

lemma parse_values_body:
  "\<forall>c\<in>set cs. 0 \<le> c \<and> c < 1000 \<Longrightarrow> parse_values (concat (map (format_d 3) cs)) = Some cs"
proof (induction cs)
  case Nil
  then show ?case by simp
next
  case (Cons c cs)
  then have c: "0 \<le> c" "c < 1000" by simp_all
  have d: "nat c div 100 < 10" "nat c div 10 mod 10 < 10" "nat c mod 10 < 10"
    using c by (simp_all add: less_mult_imp_div_less)
  have v: "int (100 * (nat c div 100) + 10 * (nat c div 10 mod 10) + nat c mod 10) = c"
    using c by (simp only: three_digits)
  have "parse_values (concat (map (format_d 3) cs)) = Some cs" using Cons by simp
  then show ?case
    using v
    by (simp add: format_d_3 [OF c] digit_val_digit_char [OF d(1)] digit_val_digit_char [OF d(2)]
        digit_val_digit_char [OF d(3)] del: of_nat_add of_nat_mult)
qed

lemma decodeZCommand_frame:
  assumes "k < 100" and "\<forall>c\<in>set cs. 0 \<le> c \<and> c < 1000"
  shows "decodeZCommand k ((''Z'' @ format_d 2 (int k) @ concat (map (format_d 3) cs)) @ [CHR 0x0D, CHR 0x0A])
           = Some cs"
proof -
  have d: "k div 10 < 10" "k mod 10 < 10" using assms(1) by (simp_all add: less_mult_imp_div_less)
  have k: "10 * (k div 10) + k mod 10 = k" by simp
  show ?thesis
    using parse_values_body [OF assms(2)]
    by (simp add: decodeZCommand_def format_d_2 [OF assms(1)] digit_val_digit_char [OF d(1)]
        digit_val_digit_char [OF d(2)] k EOL_def)
qed


lemma z_loop_step:
  "z_loop n i (v # rest) zc out =
     (if i mod 64 = 63 \<or> rest = [] \<and> n = Suc i \<or> int i = int n - 1
      then z_loop n (i + 1) rest
             (((if i mod 64 = 0 then ''Z'' @ format_d 2 (int (i div 64)) else zc)
                @ format_d 3 (max 0 (min MAX_SRAM_VALUE (py_int v)))) @ [CHR 0x0D, CHR 0x0A])
             (out @ [((if i mod 64 = 0 then ''Z'' @ format_d 2 (int (i div 64)) else zc)
                @ format_d 3 (max 0 (min MAX_SRAM_VALUE (py_int v)))) @ [CHR 0x0D, CHR 0x0A]])
      else z_loop n (i + 1) rest
             ((if i mod 64 = 0 then ''Z'' @ format_d 2 (int (i div 64)) else zc)
                @ format_d 3 (max 0 (min MAX_SRAM_VALUE (py_int v)))) out)"
  by (auto simp: Let_def)

lemma z_loop_append: "z_loop n i vs zc out = out @ z_loop n i vs zc []"
proof (induction vs arbitrary: i zc out)
  case Nil
  then show ?case by simp
next
  case (Cons v rest)
  show ?case
    unfolding z_loop_step [of n i v rest zc]
    using Cons.IH [of "i + 1" _ "out @ [_]"] Cons.IH [of "i + 1" _ "[_]"] Cons.IH [of "i + 1" _ out]
    by (simp del: z_loop.simps)
qed

lemma next_index:
  "i mod 64 = 63 \<Longrightarrow> (i + 1) mod 64 = 0 \<and> (i + 1) div 64 = i div 64 + 1"
  "i mod 64 \<noteq> 63 \<Longrightarrow> (i + 1) mod 64 = i mod 64 + 1 \<and> (i + 1) div 64 = i div 64"
  for i :: nat
  by (simp_all add: mod_Suc div_Suc)

lemma z_loop_decode:
  assumes "n = i + length vs" and "n \<le> 6400"
    and "length pend = i mod 64" and "\<forall>c\<in>set pend. 0 \<le> c \<and> c < 1000"
    and "i mod 64 \<noteq> 0 \<longrightarrow> zc = ''Z'' @ format_d 2 (int (i div 64)) @ concat (map (format_d 3) pend)"
    and "vs \<noteq> [] \<or> pend = []"
  shows "decodeZCommands (i div 64) (z_loop n i vs zc []) =
           Some (pend @ map (\<lambda>v. max 0 (min MAX_SRAM_VALUE (py_int v))) vs)"
  using assms
proof (induction vs arbitrary: i zc pend)
  case Nil
  then show ?case by simp
next
  case (Cons v rest)
  define cv where "cv = max 0 (min MAX_SRAM_VALUE (py_int v))"
  define zc1 where "zc1 = ''Z'' @ format_d 2 (int (i div 64)) @ concat (map (format_d 3) (pend @ [cv]))"
  have cv: "0 \<le> cv" "cv < 1000" by (simp_all add: cv_def MAX_SRAM_VALUE_def)
  have pend': "\<forall>c\<in>set (pend @ [cv]). 0 \<le> c \<and> c < 1000" using Cons.prems(4) cv by simp
  have k: "i div 64 < 100" using Cons.prems(1,2) by (simp add: less_mult_imp_div_less)
  have zc0: "(if i mod 64 = 0 then ''Z'' @ format_d 2 (int (i div 64)) else zc)
               @ format_d 3 cv = zc1"
    using Cons.prems(3,5) by (auto simp: zc1_def)
  have last: "int i = int n - 1 \<longleftrightarrow> rest = []" using Cons.prems(1) by auto
  have step: "z_loop n i (v # rest) zc [] =
     (if i mod 64 = 63 \<or> rest = []
      then [zc1 @ [CHR 0x0D, CHR 0x0A]] @ z_loop n (i + 1) rest (zc1 @ [CHR 0x0D, CHR 0x0A]) []
      else z_loop n (i + 1) rest zc1 [])"
    unfolding z_loop_step [of n i v rest zc] cv_def [symmetric] zc0 last
    using z_loop_append [of n "i + 1" rest "zc1 @ [CHR 0x0D, CHR 0x0A]" "[zc1 @ [CHR 0x0D, CHR 0x0A]]"]
    using Cons.prems(1) by auto
  have frame: "decodeZCommand (i div 64) (zc1 @ [CHR 0x0D, CHR 0x0A]) = Some (pend @ [cv])"
    using decodeZCommand_frame [OF k pend'] by (simp add: zc1_def)
  show ?case
  proof (cases "i mod 64 = 63 \<or> rest = []")
    case closing: True
    show ?thesis
    proof (cases "rest = []")
      case True
      with step frame show ?thesis by (simp add: cv_def)
    next
      case False
      with closing have m: "i mod 64 = 63" by simp
      have "decodeZCommands ((i + 1) div 64) (z_loop n (i + 1) rest (zc1 @ [CHR 0x0D, CHR 0x0A]) []) =
              Some ([] @ map (\<lambda>v. max 0 (min MAX_SRAM_VALUE (py_int v))) rest)"
        using Cons.prems(1,2) next_index(1) [OF m] False
        by (intro Cons.IH) simp_all
      with step frame closing next_index(1) [OF m] show ?thesis
        by (simp add: cv_def del: z_loop.simps)
    qed
  next
    case mid: False
    then have m: "i mod 64 \<noteq> 63" and r: "rest \<noteq> []" by simp_all
    have "decodeZCommands ((i + 1) div 64) (z_loop n (i + 1) rest zc1 []) =
              Some ((pend @ [cv]) @ map (\<lambda>v. max 0 (min MAX_SRAM_VALUE (py_int v))) rest)"
      using Cons.prems(1,2,3) next_index(2) [OF m] r pend'
      by (intro Cons.IH) (simp_all add: zc1_def)
    with step mid next_index(2) [OF m] show ?thesis
      by (simp add: cv_def del: z_loop.simps)
  qed
qed

lemma z_loop_count:
  assumes "n = i + length vs"
  shows "length (z_loop n i vs zc []) = (if vs = [] then 0 else (i mod 64 + length vs + 63) div 64)"
  using assms
proof (induction vs arbitrary: i zc)
  case Nil
  then show ?case by simp
next
  case (Cons v rest)
  have last: "int i = int n - 1 \<longleftrightarrow> rest = []" using Cons.prems(1) by auto
  have n: "n = (i + 1) + length rest" using Cons.prems by simp
  have r: "i mod 64 < 64" by simp
  show ?case
  proof (cases "i mod 64 = 63 \<or> rest = []")
    case closing: True
    then have "length (z_loop n i (v # rest) zc []) = 1 + length (z_loop n (i + 1) rest
        (((if i mod 64 = 0 then ''Z'' @ format_d 2 (int (i div 64)) else zc)
                @ format_d 3 (max 0 (min MAX_SRAM_VALUE (py_int v)))) @ [CHR 0x0D, CHR 0x0A]) [])"
      unfolding z_loop_step [of n i v rest zc] last
      using z_loop_append [of n "i + 1" rest _ "[_]"] Cons.prems(1) by auto
    also have "\<dots> = (i mod 64 + length (v # rest) + 63) div 64"
    proof (cases "rest = []")
      case True
      have "(i mod 64 + 64) div 64 = 1" using r by simp
      with True show ?thesis by simp
    next
      case False
      with closing have m: "i mod 64 = 63" by simp
      have "(126 + (length rest + 1)) div 64 = (length rest + 63 + 64) div 64" by simp
      also have "\<dots> = (length rest + 63) div 64 + 1" by (rule div_add_self2) simp
      finally show ?thesis using False Cons.IH [OF n] next_index(1) [OF m] m
        by (simp del: z_loop.simps)
    qed
    finally show ?thesis by simp
  next
    case mid: False
    then have m: "i mod 64 \<noteq> 63" and r: "rest \<noteq> []" by simp_all
    have "z_loop n i (v # rest) zc [] = z_loop n (i + 1) rest
        ((if i mod 64 = 0 then ''Z'' @ format_d 2 (int (i div 64)) else zc)
                @ format_d 3 (max 0 (min MAX_SRAM_VALUE (py_int v)))) []"
      unfolding z_loop_step [of n i v rest zc] last using mid Cons.prems(1) by auto
    with Cons.IH [OF n] next_index(2) [OF m] r show ?thesis
      by (simp del: z_loop.simps add: add.commute add.left_commute)
  qed
qed

lemma py_int_of_int: "py_int (real_of_int n) = n"
  by (simp add: py_int_def)

text \<open>
  Claim C6. At most 4096 register values are encoded into one Z-command per block of 64
  values, the last block possibly shorter, so into the number of values divided by 64
  and rounded up. Each command is the tag \<open>Z\<close>, the two-digit block index, three digits
  per value and the terminator, which is what the decoder accepts; decoding the commands
  in order gives back the values, each clamped to the range from 0 to 511.
\<close>

theorem z_commands_round_trip:
  assumes "length ns \<le> 4096"
  shows "\<exists>cmds. convertNumbersToZCommands s (map real_of_int ns) = Inr cmds
           \<and> decodeZCommands 0 cmds = Some (map (\<lambda>n. max 0 (min 511 n)) ns)
           \<and> length cmds = (length ns + 63) div 64"
proof -
  let ?vs = "map real_of_int ns"
  have c: "convertNumbersToZCommands s ?vs = Inr (z_loop (length ?vs) 0 ?vs [] [])"
    using assms by (simp add: convertNumbersToZCommands_def MAX_SRAM_SAMPLES_def del: z_loop.simps)
  have "decodeZCommands (0 div 64) (z_loop (length ?vs) 0 ?vs [] []) =
          Some ([] @ map (\<lambda>v. max 0 (min MAX_SRAM_VALUE (py_int v))) ?vs)"
    using assms by (intro z_loop_decode) simp_all
  then have d: "decodeZCommands 0 (z_loop (length ?vs) 0 ?vs [] []) = Some (map (\<lambda>n. max 0 (min 511 n)) ns)"
    by (simp add: py_int_of_int MAX_SRAM_VALUE_def comp_def del: z_loop.simps)
  have l: "length (z_loop (length ?vs) 0 ?vs [] []) = (length ns + 63) div 64"
    using z_loop_count [of "length ?vs" 0 ?vs "[]"] by (simp del: z_loop.simps)
  from c d l show ?thesis by blast
qed

theorem z_commands_round_trip_witness:
  "length [600, -3, 7 :: int] \<le> 4096
   \<and> convertNumbersToZCommands (init None False False) (map real_of_int [600, -3, 7])
       = Inr [''Z00511000007'' @ EOL]
   \<and> decodeZCommands 0 [''Z00511000007'' @ EOL] = Some [511, 0, 7]"
proof -
  have e: "convertNumbersToZCommands (init None False False) (map real_of_int [600, -3, 7])
       = Inr [''Z00511000007'' @ EOL]"
    by code_simp
  show ?thesis
    using z_commands_round_trip [of "[600, -3, 7]" "init None False False"] e by simp
qed

end
